theory Spec2Isabelle
  imports Main
begin

section \<open>The boxing round timer (boxing\_timer.py)\<close>

text \<open>
  A shallow embedding of the command-line round timer.  Python's unbounded integers are
  \<^typ>\<open>int\<close>, its strings are \<^typ>\<open>string\<close>, the dataclass is a record.  Everything the
  script does to the terminal (writes and flushes of standard output, one-second sleeps) is
  recorded as a list of events in an explicit world that every effectful function takes
  and returns; exceptions are the left summand of the result.
\<close>

subsection \<open>Configuration\<close>

record TimerConfig =
  rounds :: int
  round_seconds :: int
  rest_seconds :: int
  warmup_seconds :: int
  bell :: bool

subsection \<open>Integer formatting of Python\<close>

text \<open>
  \<open>str(n)\<close> and the format specification \<open>02d\<close> for integers: decimal digits, a minus sign
  for negative numbers, and for \<open>02d\<close> zeros between sign and digits up to a total width
  of two characters.  Padding never truncates.
\<close>

definition digit_char :: "nat \<Rightarrow> char" where
  "digit_char d = ''0123456789'' ! d"

fun digits10 :: "nat \<Rightarrow> string" where
  "digits10 n =
     (if n < 10 then [digit_char n] else digits10 (n div 10) @ [digit_char (n mod 10)])"

definition str_int :: "int \<Rightarrow> string" where
  "str_int n = (if n < 0 then ''-'' @ digits10 (nat (- n)) else digits10 (nat n))"

definition format_02d :: "int \<Rightarrow> string" where
  "format_02d n =
     (let sign = (if n < 0 then ''-'' else '''');
          ds = digits10 (nat \<bar>n\<bar>)
      in sign @ replicate (2 - (length sign + length ds)) CHR ''0'' @ ds)"

subsection \<open>\<open>_format_time\<close>\<close>

text \<open>
  \<^verbatim>\<open>minutes, secs = divmod(seconds, 60); return f"{minutes:02d}:{secs:02d}"\<close>.
  Python's \<open>divmod\<close> by a positive number is floor division, as \<open>div\<close> and \<open>mod\<close> on
  \<^typ>\<open>int\<close> are.
\<close>

definition format_time :: "int \<Rightarrow> string" where
  "format_time seconds =
     (let minutes = seconds div 60; secs = seconds mod 60
      in format_02d minutes @ '':'' @ format_02d secs)"

subsection \<open>Effects: the terminal, the clock, the interrupt\<close>

text \<open>
  \<open>Write s\<close> is \<open>sys.stdout.write(s)\<close>, \<open>Flush\<close> is \<open>sys.stdout.flush()\<close>, \<open>Sleep n\<close> is
  \<open>time.sleep(n)\<close>.  The world holds the events performed so far on standard output and
  the clock (\<open>out\<close>), the messages handed to \<open>parser.error\<close>, which argparse prints on
  standard error (\<open>err\<close>), and the pending user interrupt: \<open>sigint = Some k\<close> means that
  \<open>k\<close> more events complete and Ctrl+C arrives at the next one, which is abandoned (a sleep
  cut short, a write not made) with \<open>KeyboardInterrupt\<close> raised in its place;
  \<open>sigint = None\<close> means that no interrupt is pending.
\<close>

datatype event = Write string | Flush | Sleep int

datatype exn = KeyboardInterrupt | SystemExit int | AttributeError

record world =
  out :: "event list"
  err :: "string list"
  sigint :: "nat option"

type_synonym 'a io = "world \<Rightarrow> (exn + 'a) \<times> world"

definition return_io :: "'a \<Rightarrow> 'a io" where
  "return_io x = (\<lambda>w. (Inr x, w))"

definition raise_io :: "exn \<Rightarrow> 'a io" where
  "raise_io e = (\<lambda>w. (Inl e, w))"

definition bind_io :: "'a io \<Rightarrow> ('a \<Rightarrow> 'b io) \<Rightarrow> 'b io" where
  "bind_io m f = (\<lambda>w. case m w of (Inl e, w') \<Rightarrow> (Inl e, w') | (Inr x, w') \<Rightarrow> f x w')"

definition perform :: "event \<Rightarrow> unit io" where
  "perform e = (\<lambda>w. case sigint w of
       None \<Rightarrow> (Inr (), w\<lparr>out := out w @ [e]\<rparr>)
     | Some 0 \<Rightarrow> (Inl KeyboardInterrupt, w\<lparr>sigint := None\<rparr>)
     | Some (Suc k) \<Rightarrow> (Inr (), w\<lparr>out := out w @ [e], sigint := Some k\<rparr>))"

text \<open>\<open>try: m except KeyboardInterrupt: h\<close>; every other exception passes through.\<close>

definition except_KeyboardInterrupt :: "'a io \<Rightarrow> 'a io \<Rightarrow> 'a io" where
  "except_KeyboardInterrupt m h =
     (\<lambda>w. case m w of (Inl KeyboardInterrupt, w') \<Rightarrow> h w' | r \<Rightarrow> r)"

subsection \<open>\<open>_play_bell\<close>\<close>

definition play_bell :: "bool \<Rightarrow> unit io" where
  "play_bell enabled =
     (if enabled then bind_io (perform (Write [CHR 0x07])) (\<lambda>_. perform Flush)
      else return_io ())"

subsection \<open>\<open>_countdown\<close>\<close>

text \<open>\<open>range(seconds, -1, -1)\<close>: \<open>seconds, seconds - 1, ..., 0\<close>, empty for negative \<open>seconds\<close>.\<close>

definition range_down :: "int \<Rightarrow> int list" where
  "range_down seconds = rev [0..seconds]"

text \<open>The f-string \<^verbatim>\<open>f"\r{label}: {_format_time(remaining)}   "\<close>.\<close>

definition status_line :: "string \<Rightarrow> int \<Rightarrow> string" where
  "status_line label remaining = [CHR 0x0D] @ label @ '': '' @ format_time remaining @ ''   ''"

fun countdown_loop :: "string \<Rightarrow> int list \<Rightarrow> unit io" where
  "countdown_loop label [] = return_io ()"
| "countdown_loop label (remaining # rest) =
     bind_io (perform (Write (status_line label remaining))) (\<lambda>_.
     bind_io (perform Flush) (\<lambda>_.
     bind_io (if remaining > 0 then perform (Sleep 1) else return_io ()) (\<lambda>_.
     countdown_loop label rest)))"

definition countdown :: "string \<Rightarrow> int \<Rightarrow> bool \<Rightarrow> unit io" where
  "countdown label seconds bell_enabled =
     bind_io (countdown_loop label (range_down seconds)) (\<lambda>_.
     bind_io (perform (Write [CHR 0x0A])) (\<lambda>_.
     play_bell bell_enabled))"

subsection \<open>\<open>_round_intervals\<close>\<close>

text \<open>
  The generator, drained into the list of the pairs it yields.  \<open>range(1, rounds + 1)\<close> is
  \<open>[1..rounds]\<close>, empty when \<open>rounds < 1\<close>.  The two tests \<open>if config.warmup_seconds\<close> and
  \<open>and config.rest_seconds\<close> are tests for a non-zero integer.
\<close>

definition round_label :: "int \<Rightarrow> int \<Rightarrow> string" where
  "round_label round_number n = ''Round '' @ str_int round_number @ ''/'' @ str_int n"

fun round_loop :: "TimerConfig \<Rightarrow> int list \<Rightarrow> (string \<times> int) list" where
  "round_loop config [] = []"
| "round_loop config (round_number # rest) =
     (round_label round_number (rounds config), round_seconds config) #
     (if round_number \<noteq> rounds config \<and> rest_seconds config \<noteq> 0
      then [(''Rest'', rest_seconds config)] else []) @
     round_loop config rest"

definition round_intervals :: "TimerConfig \<Rightarrow> (string \<times> int) list" where
  "round_intervals config =
     (if warmup_seconds config \<noteq> 0 then [(''Warmup'', warmup_seconds config)] else []) @
     round_loop config [1..rounds config]"

subsection \<open>\<open>run_timer\<close>\<close>

text \<open>
  The body of the generator performs no event, so running it lazily between the countdowns
  or ahead of them gives the same events; the loop runs over the drained list.
\<close>

fun run_loop :: "TimerConfig \<Rightarrow> (string \<times> int) list \<Rightarrow> unit io" where
  "run_loop config [] = return_io ()"
| "run_loop config ((label, seconds) # rest) =
     bind_io (countdown label seconds (bell config)) (\<lambda>_. run_loop config rest)"

definition stopped_message :: string where
  "stopped_message = [CHR 0x0A] @ ''Timer stopped.'' @ [CHR 0x0A]"

definition run_timer :: "TimerConfig \<Rightarrow> unit io" where
  "run_timer config =
     except_KeyboardInterrupt
       (run_loop config (round_intervals config))
       (perform (Write stopped_message))"

subsection \<open>\<open>parse_args\<close> and \<open>main\<close>\<close>

text \<open>
  The model starts from the namespace that \<open>parser.parse_args(argv)\<close> returns: the four
  integers (argparse has applied \<open>type=int\<close> and the defaults) and the \<open>--no-bell\<close> flag.
  \<open>parser.error(message)\<close> prints the usage and the message on standard error and leaves
  the process with status 2 (this is argparse, not code of the script).
\<close>

record Namespace =
  arg_rounds :: int
  arg_round_seconds :: int
  arg_rest_seconds :: int
  arg_warmup_seconds :: int
  arg_no_bell :: bool

definition parser_error :: "string \<Rightarrow> 'a io" where
  "parser_error message = (\<lambda>w. (Inl (SystemExit 2), w\<lparr>err := err w @ [message]\<rparr>))"

text \<open>
  \<open>getattr(args, name)\<close> for the integer attributes of the namespace; the loop of
  \<open>parse_args\<close> reads three of them by name.
\<close>

definition getattr :: "Namespace \<Rightarrow> string \<Rightarrow> int io" where
  "getattr args name =
     (if name = ''round_seconds'' then return_io (arg_round_seconds args)
      else if name = ''rest_seconds'' then return_io (arg_rest_seconds args)
      else if name = ''warmup_seconds'' then return_io (arg_warmup_seconds args)
      else if name = ''rounds'' then return_io (arg_rounds args)
      else raise_io AttributeError)"

text \<open>\<open>name.replace('_', '-')\<close>\<close>

definition replace_underscores :: "string \<Rightarrow> string" where
  "replace_underscores name = map (\<lambda>c. if c = CHR ''_'' then CHR ''-'' else c) name"

fun check_loop :: "Namespace \<Rightarrow> string list \<Rightarrow> unit io" where
  "check_loop args [] = return_io ()"
| "check_loop args (name # names) =
     bind_io (getattr args name) (\<lambda>v.
     bind_io (if v < 0
              then parser_error (''--'' @ replace_underscores name @ '' cannot be negative'')
              else return_io ()) (\<lambda>_.
     check_loop args names))"

definition parse_args :: "Namespace \<Rightarrow> TimerConfig io" where
  "parse_args args =
     bind_io (if arg_rounds args < 1 then parser_error ''--rounds must be at least 1''
              else return_io ()) (\<lambda>_.
     bind_io (check_loop args [''round_seconds'', ''rest_seconds'', ''warmup_seconds'']) (\<lambda>_.
     return_io \<lparr>rounds = arg_rounds args,
                round_seconds = arg_round_seconds args,
                rest_seconds = arg_rest_seconds args,
                warmup_seconds = arg_warmup_seconds args,
                bell = (\<not> arg_no_bell args)\<rparr>))"

definition main :: "Namespace \<Rightarrow> int io" where
  "main args =
     bind_io (parse_args args) (\<lambda>config.
     bind_io (run_timer config) (\<lambda>_.
     return_io 0))"

text \<open>
  \<^verbatim>\<open>raise SystemExit(main())\<close>, and the status the process leaves with: the code of a
  \<open>SystemExit\<close>; an exception that nobody catches ends the interpreter with a non-zero
  status (1 after a traceback, 130 for an interrupt).
\<close>

definition script :: "Namespace \<Rightarrow> world \<Rightarrow> exn \<times> world" where
  "script args w =
     (case main args w of (Inr status, w') \<Rightarrow> (SystemExit status, w') | (Inl e, w') \<Rightarrow> (e, w'))"

fun exit_status :: "exn \<Rightarrow> int" where
  "exit_status (SystemExit status) = status"
| "exit_status KeyboardInterrupt = 130"
| "exit_status AttributeError = 1"

subsection \<open>The generator object\<close>

text \<open>
  \<open>_round_intervals\<close> is a generator function: a call runs none of its body and returns a
  generator object, and each \<open>next\<close> resumes the body up to the next \<open>yield\<close>.  The state of
  a generator is the place where its frame is suspended (not started, at the \<open>yield\<close> of
  the warmup, of a round or of a rest, with the loop variable, or finished).  Generator
  objects live in a heap, addressed by position, so that two calls give two objects.
\<close>

datatype gen_state = Created | AtWarmup | AtRound int | AtRest int | Exhausted

text \<open>The head of the \<open>for\<close> loop: the next round, or the end of the range.\<close>

definition loop_head :: "TimerConfig \<Rightarrow> int \<Rightarrow> (string \<times> int) option \<times> gen_state" where
  "loop_head config round_number =
     (if round_number \<le> rounds config
      then (Some (round_label round_number (rounds config), round_seconds config),
            AtRound round_number)
      else (None, Exhausted))"

fun resume :: "TimerConfig \<Rightarrow> gen_state \<Rightarrow> (string \<times> int) option \<times> gen_state" where
  "resume config Created =
     (if warmup_seconds config \<noteq> 0
      then (Some (''Warmup'', warmup_seconds config), AtWarmup)
      else loop_head config 1)"
| "resume config AtWarmup = loop_head config 1"
| "resume config (AtRound round_number) =
     (if round_number \<noteq> rounds config \<and> rest_seconds config \<noteq> 0
      then (Some (''Rest'', rest_seconds config), AtRest round_number)
      else loop_head config (round_number + 1))"
| "resume config (AtRest round_number) = loop_head config (round_number + 1)"
| "resume config Exhausted = (None, Exhausted)"

record generator =
  gi_config :: TimerConfig
  gi_state :: gen_state

type_synonym heap = "generator list"

definition call_round_intervals :: "TimerConfig \<Rightarrow> heap \<Rightarrow> nat \<times> heap" where
  "call_round_intervals config h =
     (length h, h @ [\<lparr>gi_config = config, gi_state = Created\<rparr>])"

text \<open>\<open>next(g)\<close>; \<open>None\<close> is \<open>StopIteration\<close>.\<close>

definition next_gen :: "nat \<Rightarrow> heap \<Rightarrow> (string \<times> int) option \<times> heap" where
  "next_gen g h =
     (if g < length h
      then (case resume (gi_config (h ! g)) (gi_state (h ! g)) of
              (r, s) \<Rightarrow> (r, h[g := (h ! g)\<lparr>gi_state := s\<rparr>]))
      else (None, h))"

fun steps_left :: "TimerConfig \<Rightarrow> gen_state \<Rightarrow> nat" where
  "steps_left config Created = 2 * nat (rounds config) + 3"
| "steps_left config AtWarmup = 2 * nat (rounds config) + 2"
| "steps_left config (AtRound i) = 2 * nat (rounds config - i) + 1"
| "steps_left config (AtRest i) = 2 * nat (rounds config - i)"
| "steps_left config Exhausted = 0"

text \<open>\<open>list(g)\<close>: \<open>next\<close> until \<open>StopIteration\<close>.  It ends because every resumption that
  yields leaves fewer steps.\<close>

function list_gen :: "nat \<Rightarrow> heap \<Rightarrow> (string \<times> int) list \<times> heap" where
  "list_gen g h =
     (case next_gen g h of
        (None, h') \<Rightarrow> ([], h')
      | (Some x, h') \<Rightarrow> (case list_gen g h' of (xs, h'') \<Rightarrow> (x # xs, h'')))"
  by pat_completeness auto
termination
  by (relation "measure (\<lambda>(g, h). if g < length h
                   then steps_left (gi_config (h ! g)) (gi_state (h ! g)) else 0)")
     (auto simp: next_gen_def loop_head_def split: if_splits prod.splits gen_state.splits
           elim!: resume.elims)

text \<open>What a generator in a given state still has to yield.\<close>

fun pending :: "TimerConfig \<Rightarrow> gen_state \<Rightarrow> (string \<times> int) list" where
  "pending c Created = round_intervals c"
| "pending c AtWarmup = round_loop c [1..rounds c]"
| "pending c (AtRound i) =
     (if i \<noteq> rounds c \<and> rest_seconds c \<noteq> 0 then [(''Rest'', rest_seconds c)] else []) @
     round_loop c [i + 1..rounds c]"
| "pending c (AtRest i) = round_loop c [i + 1..rounds c]"
| "pending c Exhausted = []"

section \<open>What the specification says\<close>

subsection \<open>Valid inputs\<close>

definition valid_config :: "TimerConfig \<Rightarrow> bool" where
  "valid_config c \<longleftrightarrow>
     1 \<le> rounds c \<and> 0 \<le> round_seconds c \<and> 0 \<le> rest_seconds c \<and> 0 \<le> warmup_seconds c"

definition valid_args :: "Namespace \<Rightarrow> bool" where
  "valid_args args \<longleftrightarrow>
     1 \<le> arg_rounds args \<and> 0 \<le> arg_round_seconds args \<and>
     0 \<le> arg_rest_seconds args \<and> 0 \<le> arg_warmup_seconds args"

definition config_of :: "Namespace \<Rightarrow> TimerConfig" where
  "config_of args =
     \<lparr>rounds = arg_rounds args, round_seconds = arg_round_seconds args,
      rest_seconds = arg_rest_seconds args, warmup_seconds = arg_warmup_seconds args,
      bell = (\<not> arg_no_bell args)\<rparr>"

text \<open>The message of the first check of \<open>parse_args\<close> that fails.\<close>

definition rejection_message :: "Namespace \<Rightarrow> string" where
  "rejection_message args =
     (if arg_rounds args < 1 then ''--rounds must be at least 1''
      else if arg_round_seconds args < 0 then ''--round-seconds cannot be negative''
      else if arg_rest_seconds args < 0 then ''--rest-seconds cannot be negative''
      else ''--warmup-seconds cannot be negative'')"

subsection \<open>The interval sequence, in the words of the specification\<close>

text \<open>
  A warmup interval if the warmup is positive; then for the round indices 1 to \<open>rounds\<close>
  one round interval, followed after each round except the last by a rest interval if the
  rest is positive.
\<close>

definition spec_round :: "TimerConfig \<Rightarrow> int \<Rightarrow> (string \<times> int) list" where
  "spec_round c i =
     (round_label i (rounds c), round_seconds c) #
     (if i < rounds c \<and> rest_seconds c > 0 then [(''Rest'', rest_seconds c)] else [])"

definition spec_intervals :: "TimerConfig \<Rightarrow> (string \<times> int) list" where
  "spec_intervals c =
     (if warmup_seconds c > 0 then [(''Warmup'', warmup_seconds c)] else []) @
     concat (map (spec_round c) [1..rounds c])"

definition is_round :: "string \<times> int \<Rightarrow> bool" where
  "is_round x = (take 6 (fst x) = ''Round '')"

subsection \<open>Two-digit fields\<close>

text \<open>
  A number zero-padded to two digits: its decimal numeral, with a zero in front when it
  has one digit.  \<open>read_dec\<close> reads a string of digits back as a number.
\<close>

definition zero_pad2 :: "nat \<Rightarrow> string" where
  "zero_pad2 n = (if n < 10 then [CHR ''0'', digit_char n] else digits10 n)"

definition digit_value :: "char \<Rightarrow> nat" where
  "digit_value c = of_char c - 48"

definition read_dec :: "string \<Rightarrow> nat" where
  "read_dec s = foldl (\<lambda>a c. 10 * a + digit_value c) 0 s"

subsection \<open>Event traces\<close>

text \<open>
  Performing a list of events one after the other; the events of one tick of a countdown
  (the status line, the flush, and the sleep while time remains), of a whole countdown
  (tick \<open>k\<close> shows \<open>seconds - k\<close>, then the newline and the bell) and of a whole session;
  and the events of a session that nobody interrupts, read off a run of \<open>run_timer\<close>.
\<close>

fun perform_all :: "event list \<Rightarrow> unit io" where
  "perform_all [] = return_io ()"
| "perform_all (e # es) = bind_io (perform e) (\<lambda>_. perform_all es)"

definition tick_events :: "string \<Rightarrow> int \<Rightarrow> event list" where
  "tick_events label remaining =
     [Write (status_line label remaining), Flush] @ (if remaining > 0 then [Sleep 1] else [])"

definition bell_events :: "bool \<Rightarrow> event list" where
  "bell_events enabled = (if enabled then [Write [CHR 0x07], Flush] else [])"

definition countdown_events :: "string \<Rightarrow> int \<Rightarrow> bool \<Rightarrow> event list" where
  "countdown_events label seconds enabled =
     concat (map (\<lambda>k. tick_events label (seconds - int k)) [0..<nat (seconds + 1)]) @
     [Write [CHR 0x0A]] @ bell_events enabled"

definition session_events :: "TimerConfig \<Rightarrow> event list" where
  "session_events c =
     concat (map (\<lambda>x. countdown_events (fst x) (snd x) (bell c)) (round_intervals c))"

definition uninterrupted :: "TimerConfig \<Rightarrow> event list" where
  "uninterrupted c = out (snd (run_timer c \<lparr>out = [], err = [], sigint = None\<rparr>))"

definition is_status :: "event \<Rightarrow> bool" where
  "is_status e = (case e of Write s \<Rightarrow> take 1 s = [CHR 0x0D] | _ \<Rightarrow> False)"

definition is_sleep :: "event \<Rightarrow> bool" where
  "is_sleep e = (case e of Sleep n \<Rightarrow> True | _ \<Rightarrow> False)"

definition is_bell :: "event \<Rightarrow> bool" where
  "is_bell e = (e = Write [CHR 0x07])"


section \<open>Lemmas\<close>

declare list_gen.simps [simp del]

subsection \<open>The interval sequence\<close>

lemma round_loop_append:
  "round_loop c (xs @ ys) = round_loop c xs @ round_loop c ys"
  by (induction xs) simp_all

lemma round_loop_spec_round:
  "0 \<le> rest_seconds c \<Longrightarrow> \<forall>i \<in> set xs. i \<le> rounds c \<Longrightarrow>
     round_loop c xs = concat (map (spec_round c) xs)"
  by (induction xs) (auto simp: spec_round_def)

lemma round_intervals_spec:
  "valid_config c \<Longrightarrow> round_intervals c = spec_intervals c"
  by (auto simp: valid_config_def round_intervals_def spec_intervals_def round_loop_spec_round)

lemma length_round_loop:
  "length (round_loop c xs) =
     length xs + (if rest_seconds c \<noteq> 0 then length (filter (\<lambda>i. i \<noteq> rounds c) xs) else 0)"
  by (induction xs) simp_all

lemma upto_last_split: "1 \<le> n \<Longrightarrow> [1..n] = [1..n - 1] @ [n]"
  by (simp add: upto_rec2)

lemma filter_neq_upto:
  "1 \<le> n \<Longrightarrow> filter (\<lambda>i. i \<noteq> n) [1..n] = [1..n - 1]"
proof -
  assume n: "1 \<le> n"
  have "filter (\<lambda>i. i \<noteq> n) [1..n - 1] = [1..n - 1]"
    by (rule filter_True) simp
  with n show ?thesis
    by (simp add: upto_last_split)
qed

lemma length_round_intervals:
  "1 \<le> rounds c \<Longrightarrow>
     int (length (round_intervals c)) =
       (if warmup_seconds c \<noteq> 0 then 1 else 0) + rounds c +
       (if rest_seconds c \<noteq> 0 then rounds c - 1 else 0)"
  by (simp add: round_intervals_def length_round_loop filter_neq_upto)

lemma sum_round_loop:
  "sum_list (map snd (round_loop c xs)) =
     int (length xs) * round_seconds c +
     int (length (filter (\<lambda>i. i \<noteq> rounds c) xs)) * rest_seconds c"
  by (induction xs) (simp_all add: algebra_simps)

lemma sum_round_intervals:
  "1 \<le> rounds c \<Longrightarrow>
     sum_list (map snd (round_intervals c)) =
       warmup_seconds c + rounds c * round_seconds c + (rounds c - 1) * rest_seconds c"
  by (simp add: round_intervals_def sum_round_loop filter_neq_upto)

lemma is_round_label: "is_round (round_label i n, d)"
  by (simp add: is_round_def round_label_def)

lemma filter_round_loop:
  "filter is_round (round_loop c xs) =
     map (\<lambda>i. (round_label i (rounds c), round_seconds c)) xs"
  by (induction xs) (simp_all add: is_round_label, simp_all add: is_round_def)

lemma filter_round_intervals:
  "filter is_round (round_intervals c) =
     map (\<lambda>i. (round_label i (rounds c), round_seconds c)) [1..rounds c]"
  by (simp add: round_intervals_def filter_round_loop) (simp add: is_round_def)

lemma last_round_intervals:
  "1 \<le> rounds c \<Longrightarrow>
     last (round_intervals c) = (round_label (rounds c) (rounds c), round_seconds c)"
  by (simp add: round_intervals_def upto_last_split round_loop_append)

lemma round_intervals_two_rounds:
  "round_intervals
     \<lparr>rounds = 2, round_seconds = 5, rest_seconds = 3, warmup_seconds = 2, bell = b\<rparr> =
   [(''Warmup'', 2), (''Round 1/2'', 5), (''Rest'', 3), (''Round 2/2'', 5)]"
  by (simp add: round_intervals_def round_label_def str_int_def digit_char_def upto_rec1)

lemma round_intervals_one_round:
  "round_intervals
     \<lparr>rounds = 1, round_seconds = 0, rest_seconds = 0, warmup_seconds = 0, bell = b\<rparr> =
   [(''Round 1/1'', 0)]"
  by (simp add: round_intervals_def round_label_def str_int_def digit_char_def upto_rec1)

subsection \<open>Decimal digits and the time format\<close>

lemma digit_cases: "d < 10 \<Longrightarrow> d \<in> {0, 1, 2, 3, 4, 5, 6, 7, 8, 9::nat}"
  by auto

lemma digit_value_digit_char: "d < 10 \<Longrightarrow> digit_value (digit_char d) = d"
  using digit_cases [of d] by (auto simp: digit_value_def digit_char_def)

lemma read_dec_snoc: "read_dec (s @ [c]) = 10 * read_dec s + digit_value c"
  by (simp add: read_dec_def)

lemma read_dec_digits10: "read_dec (digits10 n) = n"
proof (induction n rule: digits10.induct)
  case (1 n)
  show ?case
  proof (cases "n < 10")
    case True
    then show ?thesis
      using read_dec_snoc [of "[]" "digit_char n"] by (simp add: digit_value_digit_char read_dec_def)
  next
    case False
    then have "digits10 n = digits10 (n div 10) @ [digit_char (n mod 10)]"
      by simp
    with False 1 show ?thesis
      by (simp only: read_dec_snoc) (simp add: digit_value_digit_char)
  qed
qed

lemma length_digits10_pos: "0 < length (digits10 n)"
  by (induction n rule: digits10.induct) (subst digits10.simps, simp)

lemma length_digits10_large: "10 \<le> n \<Longrightarrow> 2 \<le> length (digits10 n)"
  using length_digits10_pos [of "n div 10"] by (subst digits10.simps) simp

lemma length_digits10_two: "10 \<le> n \<Longrightarrow> n < 100 \<Longrightarrow> length (digits10 n) = 2"
  by (subst digits10.simps) simp

lemma format_02d_nonneg: "0 \<le> n \<Longrightarrow> format_02d n = zero_pad2 (nat n)"
proof (cases "nat n < 10")
  case True
  assume "0 \<le> n"
  with True show ?thesis
    by (simp add: format_02d_def zero_pad2_def)
next
  case False
  assume "0 \<le> n"
  with False length_digits10_large [of "nat n"] show ?thesis
    by (simp add: format_02d_def zero_pad2_def Let_def del: digits10.simps)
qed

lemma read_dec_zero_pad2: "read_dec (zero_pad2 n) = n"
proof (cases "n < 10")
  case True
  then show ?thesis
    by (simp add: zero_pad2_def read_dec_def digit_value_digit_char) (simp add: digit_value_def)
next
  case False
  then show ?thesis
    using read_dec_digits10 [of n] by (simp add: zero_pad2_def del: digits10.simps)
qed

lemma length_zero_pad2: "n < 100 \<Longrightarrow> length (zero_pad2 n) = 2"
  using length_digits10_two [of n] by (simp add: zero_pad2_def del: digits10.simps)

lemma format_time_nonneg:
  "0 \<le> s \<Longrightarrow> format_time s = zero_pad2 (nat (s div 60)) @ '':'' @ zero_pad2 (nat (s mod 60))"
  by (simp add: format_time_def Let_def format_02d_nonneg pos_imp_zdiv_nonneg_iff)

lemma format_time_examples:
  "format_time 0 = ''00:00''" "format_time 59 = ''00:59''"
  "format_time 60 = ''01:00''" "format_time 125 = ''02:05''"
  by (simp_all add: format_time_def format_02d_def digit_char_def)

subsection \<open>Countdowns and sessions as event traces\<close>

lemma bind_return [simp]: "bind_io (return_io x) f = f x"
  by (simp add: bind_io_def return_io_def)

lemma bind_assoc: "bind_io (bind_io m f) g = bind_io m (\<lambda>x. bind_io (f x) g)"
  by (auto simp: bind_io_def fun_eq_iff split: prod.splits sum.splits)

lemma bind_return_right [simp]: "bind_io m return_io = m"
  by (auto simp: bind_io_def return_io_def fun_eq_iff split: prod.splits sum.splits)

lemma perform_all_append:
  "perform_all (xs @ ys) = bind_io (perform_all xs) (\<lambda>_. perform_all ys)"
  by (induction xs) (simp_all add: bind_assoc)

lemma countdown_loop_events:
  "countdown_loop label rs = perform_all (concat (map (tick_events label) rs))"
  by (induction rs) (simp_all add: tick_events_def bind_assoc)

lemma play_bell_events: "play_bell b = perform_all (bell_events b)"
  by (simp add: play_bell_def bell_events_def)

lemma range_down_eq: "range_down s = map (\<lambda>k. s - int k) [0..<nat (s + 1)]"
proof (cases "0 \<le> s")
  case False
  then show ?thesis by (simp add: range_down_def)
next
  case True
  then show ?thesis
  proof (induction "nat s" arbitrary: s)
    case 0
    then show ?case by (simp add: range_down_def)
  next
    case (Suc n)
    then have s: "1 \<le> s" "n = nat (s - 1)" "0 \<le> s - 1" by linarith+
    have "[0..s] = [0..s - 1] @ [s]"
      using Suc.prems by (simp add: upto_rec2)
    then have "range_down s = s # range_down (s - 1)"
      by (simp add: range_down_def)
    also have "range_down (s - 1) = map (\<lambda>k. s - 1 - int k) [0..<nat s]"
      using Suc.hyps(1) [OF s(2) s(3)] by simp
    also have "\<dots> = map (\<lambda>k. s - int k) [1..<nat (s + 1)]"
    proof -
      have "[1..<nat (s + 1)] = map Suc [0..<nat s]"
        using s(1) by (simp add: map_Suc_upt nat_add_distrib)
      then show ?thesis by (simp add: comp_def algebra_simps)
    qed
    finally show ?case
      using s(1) by (simp add: upt_conv_Cons nat_add_distrib)
  qed
qed

lemma countdown_is_events:
  "countdown label s b = perform_all (countdown_events label s b)"
  by (simp add: countdown_def countdown_events_def countdown_loop_events play_bell_events
      perform_all_append range_down_eq map_map comp_def)

lemma run_loop_events:
  "run_loop c ivs =
     perform_all (concat (map (\<lambda>x. countdown_events (fst x) (snd x) (bell c)) ivs))"
  by (induction ivs) (auto simp: countdown_is_events perform_all_append)

lemma perform_all_None:
  "sigint w = None \<Longrightarrow> perform_all es w = (Inr (), w\<lparr>out := out w @ es\<rparr>)"
  by (induction es arbitrary: w) (simp_all add: return_io_def bind_io_def perform_def)

lemma perform_all_interrupted:
  "sigint w = Some k \<Longrightarrow> k < length es \<Longrightarrow>
     perform_all es w = (Inl KeyboardInterrupt, w\<lparr>out := out w @ take k es, sigint := None\<rparr>)"
proof (induction es arbitrary: w k)
  case Nil
  then show ?case by simp
next
  case (Cons e es)
  show ?case
  proof (cases k)
    case 0
    with Cons.prems show ?thesis
      by (simp add: bind_io_def perform_def)
  next
    case (Suc j)
    with Cons.prems have "perform e w = (Inr (), w\<lparr>out := out w @ [e], sigint := Some j\<rparr>)"
      by (simp add: perform_def)
    moreover have "perform_all es (w\<lparr>out := out w @ [e], sigint := Some j\<rparr>) =
        (Inl KeyboardInterrupt, w\<lparr>out := out w @ e # take j es, sigint := None\<rparr>)"
      using Cons.IH [of "w\<lparr>out := out w @ [e], sigint := Some j\<rparr>" j] Cons.prems Suc
      by simp
    ultimately show ?thesis
      using Suc by (simp add: bind_io_def)
  qed
qed

lemma perform_all_completes:
  "sigint w = Some k \<Longrightarrow> length es \<le> k \<Longrightarrow>
     perform_all es w = (Inr (), w\<lparr>out := out w @ es, sigint := Some (k - length es)\<rparr>)"
proof (induction es arbitrary: w k)
  case Nil
  then show ?case by (simp add: return_io_def)
next
  case (Cons e es)
  then obtain j where j: "k = Suc j" by (cases k) auto
  with Cons.prems have "perform e w = (Inr (), w\<lparr>out := out w @ [e], sigint := Some j\<rparr>)"
    by (simp add: perform_def)
  moreover have "perform_all es (w\<lparr>out := out w @ [e], sigint := Some j\<rparr>) =
      (Inr (), w\<lparr>out := out w @ e # es, sigint := Some (j - length es)\<rparr>)"
    using Cons.IH [of "w\<lparr>out := out w @ [e], sigint := Some j\<rparr>" j] Cons.prems j
    by simp
  ultimately show ?case
    using j by (simp add: bind_io_def)
qed

lemma run_timer_None:
  "sigint w = None \<Longrightarrow> run_timer c w = (Inr (), w\<lparr>out := out w @ session_events c\<rparr>)"
  by (simp add: run_timer_def except_KeyboardInterrupt_def run_loop_events perform_all_None
      session_events_def)

lemma uninterrupted_events: "uninterrupted c = session_events c"
  by (simp add: uninterrupted_def run_timer_None)

lemma run_timer_interrupted:
  "sigint w = Some k \<Longrightarrow> k < length (session_events c) \<Longrightarrow>
     run_timer c w =
       (Inr (), w\<lparr>out := out w @ take k (session_events c) @ [Write stopped_message],
                  sigint := None\<rparr>)"
  by (simp add: run_timer_def except_KeyboardInterrupt_def run_loop_events
      perform_all_interrupted session_events_def perform_def)

lemma filter_concat_map:
  "filter P (concat (map f xs)) = concat (map (\<lambda>x. filter P (f x)) xs)"
  by (induction xs) simp_all

lemma concat_map_single: "concat (map (\<lambda>x. [g x]) xs) = map g xs"
  by (induction xs) simp_all

lemma concat_map_if:
  "concat (map (\<lambda>x. if P x then [c] else []) xs) = replicate (length (filter P xs)) c"
  by (induction xs) simp_all

lemma is_status_line [simp]: "is_status (Write (status_line label r))"
  by (simp add: is_status_def status_line_def)

lemma filter_status_tick:
  "filter is_status (tick_events label r) = [Write (status_line label r)]"
  by (simp add: tick_events_def) (simp add: is_status_def)

lemma filter_sleep_tick:
  "filter is_sleep (tick_events label r) = (if r > 0 then [Sleep 1] else [])"
  by (simp add: tick_events_def is_sleep_def)

lemma filter_bell_tick: "filter is_bell (tick_events label r) = []"
  by (simp add: tick_events_def is_bell_def status_line_def)

lemma filter_status_countdown:
  "filter is_status (countdown_events label D b) =
     map (\<lambda>k. Write (status_line label (D - int k))) [0..<nat (D + 1)]"
  by (simp add: countdown_events_def filter_concat_map filter_status_tick concat_map_single)
     (simp add: is_status_def bell_events_def)

lemma positive_ticks: "0 \<le> D \<Longrightarrow> filter (\<lambda>k. int k < D) [0..<nat (D + 1)] = [0..<nat D]"
proof -
  assume D: "0 \<le> D"
  then have "[0..<nat (D + 1)] = [0..<nat D] @ [nat D]"
    by (simp add: nat_add_distrib)
  moreover have "filter (\<lambda>k. int k < D) [0..<nat D] = [0..<nat D]"
    by (rule filter_True) auto
  ultimately show ?thesis
    using D by simp
qed

lemma filter_sleep_countdown:
  "0 \<le> D \<Longrightarrow> filter is_sleep (countdown_events label D b) = replicate (nat D) (Sleep 1)"
  by (simp add: countdown_events_def filter_concat_map filter_sleep_tick concat_map_if
        positive_ticks)
     (simp add: is_sleep_def bell_events_def)

lemma countdown_events_zero:
  "countdown_events label 0 b =
     [Write ([CHR 0x0D] @ label @ '': 00:00   ''), Flush, Write [CHR 0x0A]] @ bell_events b"
  by (simp add: countdown_events_def tick_events_def status_line_def format_time_def
      format_02d_def digit_char_def)

lemma countdown_events_end:
  "0 \<le> D \<Longrightarrow> countdown_events label D b =
     concat (map (\<lambda>k. tick_events label (D - int k)) [0..<nat D]) @
     [Write (status_line label 0), Flush, Write [CHR 0x0A]] @ bell_events b"
  by (simp add: countdown_events_def nat_add_distrib tick_events_def)

lemma filter_bell_ticks:
  "filter is_bell (concat (map (\<lambda>k. tick_events label (D - int k)) ks)) = []"
  by (simp add: filter_concat_map filter_bell_tick)

lemma filter_bell_countdown:
  "filter is_bell (countdown_events label D b) = (if b then [Write [CHR 0x07]] else [])"
  by (simp add: countdown_events_def filter_bell_ticks)
     (simp add: is_bell_def bell_events_def)

lemma filter_bell_session:
  "filter is_bell (session_events c) =
     replicate (if bell c then length (round_intervals c) else 0) (Write [CHR 0x07])"
proof -
  have "filter is_bell (concat (map (\<lambda>x. countdown_events (fst x) (snd x) (bell c)) ivs)) =
      replicate (if bell c then length ivs else 0) (Write [CHR 0x07])" for ivs
    by (induction ivs) (simp_all add: filter_bell_countdown)
  then show ?thesis
    by (simp add: session_events_def)
qed

lemma filter_take_empty: "filter P xs = [] \<Longrightarrow> filter P (take n xs) = []"
  by (metis append_take_drop_id filter_append append_is_Nil_conv)

lemma run_timer_out:
  "\<exists>n tl. out (snd (run_timer c w)) = out w @ take n (session_events c) @ tl \<and>
     filter is_bell tl = []"
proof -
  let ?es = "session_events c"
  have rt: "run_timer c w = (case perform_all ?es w of
      (Inl KeyboardInterrupt, w') \<Rightarrow> perform (Write stopped_message) w' | r \<Rightarrow> r)"
    by (simp add: run_timer_def except_KeyboardInterrupt_def run_loop_events session_events_def)
  show ?thesis
  proof (cases "sigint w")
    case None
    then have "out (snd (run_timer c w)) = out w @ take (length ?es) ?es @ []"
      by (simp add: run_timer_None)
    then show ?thesis by (metis filter.simps(1))
  next
    case (Some k)
    show ?thesis
    proof (cases "k < length ?es")
      case True
      with Some have "out (snd (run_timer c w)) = out w @ take k ?es @ [Write stopped_message]"
        by (simp add: run_timer_interrupted)
      moreover have "filter is_bell [Write stopped_message] = []"
        by (simp add: is_bell_def stopped_message_def)
      ultimately show ?thesis by blast
    next
      case False
      with Some have "out (snd (run_timer c w)) = out w @ take (length ?es) ?es @ []"
        by (simp add: rt perform_all_completes)
      then show ?thesis by (metis filter.simps(1))
    qed
  qed
qed

lemma run_timer_no_bell:
  "\<not> bell c \<Longrightarrow> filter is_bell (out (snd (run_timer c w))) = filter is_bell (out w)"
proof -
  assume nb: "\<not> bell c"
  obtain n tl where o: "out (snd (run_timer c w)) = out w @ take n (session_events c) @ tl"
    and tl: "filter is_bell tl = []"
    using run_timer_out by blast
  have "filter is_bell (session_events c) = []"
    using nb by (simp add: filter_bell_session)
  then have "filter is_bell (take n (session_events c)) = []"
    by (rule filter_take_empty)
  with o tl show ?thesis by simp
qed

lemma parse_args_valid:
  "valid_args args \<Longrightarrow> parse_args args w = (Inr (config_of args), w)"
  by (simp add: valid_args_def parse_args_def getattr_def bind_io_def return_io_def
      config_of_def)

lemma parse_args_rejects:
  "\<not> valid_args args \<Longrightarrow>
     parse_args args w = (Inl (SystemExit 2), w\<lparr>err := err w @ [rejection_message args]\<rparr>)"
  by (auto simp: valid_args_def parse_args_def getattr_def bind_io_def return_io_def
      parser_error_def rejection_message_def replace_underscores_def)

lemma parse_args_result:
  "parse_args args w = (Inr c, w') \<Longrightarrow> valid_args args \<and> c = config_of args \<and> w' = w"
  using parse_args_valid [of args w] parse_args_rejects [of args w]
  by (cases "valid_args args") auto

lemma script_invalid:
  "parse_args args w = (Inl e, w') \<Longrightarrow> script args w = (e, w')"
  by (simp add: script_def main_def bind_io_def)

lemma script_valid:
  "parse_args args w = (Inr c, w') \<Longrightarrow> run_timer c w' = (Inr (), w'') \<Longrightarrow>
     script args w = (SystemExit 0, w'')"
  by (simp add: script_def main_def bind_io_def return_io_def)

subsection \<open>Generator objects\<close>

lemma loop_head_pending:
  "loop_head c i = (r, s) \<Longrightarrow>
     round_loop c [i..rounds c] = (case r of None \<Rightarrow> [] | Some x \<Rightarrow> [x]) @ pending c s"
proof (cases "i \<le> rounds c")
  case True
  then have "[i..rounds c] = i # [i + 1..rounds c]"
    by (rule upto_rec1 [THEN trans]) simp
  moreover assume "loop_head c i = (r, s)"
  ultimately show ?thesis
    using True by (auto simp: loop_head_def)
next
  case False
  moreover assume "loop_head c i = (r, s)"
  ultimately show ?thesis
    by (auto simp: loop_head_def)
qed

lemma loop_head_None: "loop_head c i = (None, s) \<Longrightarrow> s = Exhausted"
  by (simp add: loop_head_def split: if_splits)

lemma resume_pending:
  "resume c s = (r, s') \<Longrightarrow>
     pending c s = (case r of None \<Rightarrow> [] | Some x \<Rightarrow> [x]) @ pending c s'"
  by (cases s) (auto simp: round_intervals_def dest: loop_head_pending split: if_splits)

lemma resume_None: "resume c s = (None, s') \<Longrightarrow> s' = Exhausted"
  by (cases s) (auto dest: loop_head_None split: if_splits)

lemma list_gen_pending:
  "g < length h \<Longrightarrow>
     list_gen g h =
       (pending (gi_config (h ! g)) (gi_state (h ! g)), h[g := (h ! g)\<lparr>gi_state := Exhausted\<rparr>])"
proof (induction g h rule: list_gen.induct)
  case (1 g h)
  obtain r s where rs: "resume (gi_config (h ! g)) (gi_state (h ! g)) = (r, s)"
    by (cases "resume (gi_config (h ! g)) (gi_state (h ! g))")
  let ?h = "h[g := (h ! g)\<lparr>gi_state := s\<rparr>]"
  have ng: "next_gen g h = (r, ?h)"
    using "1.prems" rs by (simp add: next_gen_def)
  show ?case
  proof (cases r)
    case None
    with rs have "s = Exhausted" by (simp add: resume_None)
    with None ng resume_pending [OF rs] show ?thesis
      by (subst list_gen.simps) simp
  next
    case (Some x)
    have "list_gen g ?h =
        (pending (gi_config (?h ! g)) (gi_state (?h ! g)), ?h[g := (?h ! g)\<lparr>gi_state := Exhausted\<rparr>])"
      using "1.IH" ng Some "1.prems" by simp
    with Some ng resume_pending [OF rs] "1.prems" show ?thesis
      by (subst list_gen.simps) simp
  qed
qed

section \<open>The claims\<close>

subsection \<open>The interval sequence\<close>

text \<open>
  Claim C1.  For every valid configuration the number of intervals that
  \<open>_round_intervals\<close> yields is 1 if the warmup is positive (else 0), plus \<open>rounds\<close>, plus
  \<open>rounds - 1\<close> if the rest is positive (else 0).
\<close>

theorem interval_count:
  assumes "valid_config c"
  shows "int (length (round_intervals c)) =
           (if warmup_seconds c > 0 then 1 else 0) + rounds c +
           (if rest_seconds c > 0 then rounds c - 1 else 0)"
  using assms by (simp add: valid_config_def length_round_intervals)

theorem interval_count_witness:
  "valid_config \<lparr>rounds = 3, round_seconds = 180, rest_seconds = 60, warmup_seconds = 10,
                  bell = True\<rparr>
   \<and> int (length (round_intervals \<lparr>rounds = 3, round_seconds = 180, rest_seconds = 60,
                                    warmup_seconds = 10, bell = True\<rparr>)) = 6"
  using interval_count [of "\<lparr>rounds = 3, round_seconds = 180, rest_seconds = 60,
                             warmup_seconds = 10, bell = True\<rparr>"]
  by (simp add: valid_config_def)

text \<open>
  Claim C2.  For every valid configuration \<open>_round_intervals\<close> yields exactly the sequence
  of the specification: the warmup if it is positive, then each round \<open>i\<close> of
  \<open>1..rounds\<close> labelled \<open>Round i/rounds\<close>, followed by a rest when \<open>i\<close> is not the last
  round and the rest is positive; the last interval is the last round.  With 2 rounds of
  5 seconds, 3 seconds of rest and 2 of warmup the sequence is Warmup 2, Round 1/2 5,
  Rest 3, Round 2/2 5.
\<close>

theorem interval_sequence:
  assumes "valid_config c"
  shows "round_intervals c = spec_intervals c
       \<and> last (round_intervals c) = (round_label (rounds c) (rounds c), round_seconds c)
       \<and> round_intervals \<lparr>rounds = 2, round_seconds = 5, rest_seconds = 3,
                            warmup_seconds = 2, bell = b\<rparr> =
           [(''Warmup'', 2), (''Round 1/2'', 5), (''Rest'', 3), (''Round 2/2'', 5)]"
proof -
  have "round_intervals c = spec_intervals c"
    using assms by (rule round_intervals_spec)
  moreover have "last (round_intervals c) =
      (round_label (rounds c) (rounds c), round_seconds c)"
    using assms by (simp add: valid_config_def last_round_intervals)
  ultimately show ?thesis
    using round_intervals_two_rounds [of b] by blast
qed

theorem interval_sequence_witness:
  "valid_config \<lparr>rounds = 2, round_seconds = 5, rest_seconds = 3, warmup_seconds = 2,
                  bell = True\<rparr>
   \<and> spec_intervals \<lparr>rounds = 2, round_seconds = 5, rest_seconds = 3, warmup_seconds = 2,
                      bell = True\<rparr> =
       [(''Warmup'', 2), (''Round 1/2'', 5), (''Rest'', 3), (''Round 2/2'', 5)]
   \<and> last (round_intervals \<lparr>rounds = 2, round_seconds = 5, rest_seconds = 3,
                             warmup_seconds = 2, bell = True\<rparr>) = (''Round 2/2'', 5)"
proof -
  let ?c = "\<lparr>rounds = 2, round_seconds = 5, rest_seconds = 3, warmup_seconds = 2,
             bell = True\<rparr>"
  have v: "valid_config ?c"
    by (simp add: valid_config_def)
  have l: "round_label 2 2 = ''Round 2/2''"
    by (simp add: round_label_def str_int_def digit_char_def)
  have "round_intervals ?c = spec_intervals ?c"
    and "last (round_intervals ?c) = (round_label (rounds ?c) (rounds ?c), round_seconds ?c)"
    and "round_intervals ?c =
      [(''Warmup'', 2), (''Round 1/2'', 5), (''Rest'', 3), (''Round 2/2'', 5)]"
    using interval_sequence [OF v, of True] by blast+
  with v l show ?thesis
    by (simp del: last.simps)
qed

text \<open>
  Claim C7.  With one round and every duration zero, \<open>_round_intervals\<close> yields exactly
  the interval Round 1/1 of 0 seconds.  In general, for a valid configuration whose
  rounds last 0 seconds, the round intervals yielded are all the rounds \<open>1..rounds\<close>, in
  order, each of 0 seconds: none is skipped.
\<close>

theorem zero_duration_rounds:
  assumes "valid_config c" and "round_seconds c = 0"
  shows "round_intervals \<lparr>rounds = 1, round_seconds = 0, rest_seconds = 0,
                          warmup_seconds = 0, bell = b\<rparr> = [(''Round 1/1'', 0)]
       \<and> filter is_round (round_intervals c) =
           map (\<lambda>i. (round_label i (rounds c), 0)) [1..rounds c]
       \<and> length (filter is_round (round_intervals c)) = nat (rounds c)"
  using assms by (simp add: round_intervals_one_round filter_round_intervals)

theorem zero_duration_rounds_witness:
  "valid_config \<lparr>rounds = 2, round_seconds = 0, rest_seconds = 3, warmup_seconds = 0,
                  bell = False\<rparr>
   \<and> round_seconds \<lparr>rounds = 2, round_seconds = 0, rest_seconds = 3, warmup_seconds = 0,
                     bell = False\<rparr> = 0
   \<and> filter is_round (round_intervals \<lparr>rounds = 2, round_seconds = 0, rest_seconds = 3,
                                        warmup_seconds = 0, bell = False\<rparr>) =
       [(''Round 1/2'', 0), (''Round 2/2'', 0)]"
proof -
  let ?c = "\<lparr>rounds = 2, round_seconds = 0, rest_seconds = 3, warmup_seconds = 0,
             bell = False\<rparr>"
  have v: "valid_config ?c"
    by (simp add: valid_config_def)
  have z: "round_seconds ?c = 0"
    by simp
  from zero_duration_rounds [OF v z] v show ?thesis
    by (simp add: round_label_def str_int_def digit_char_def upto_rec1)
qed

text \<open>
  Claim C10.  For every valid configuration the durations of the intervals that
  \<open>_round_intervals\<close> yields add up to
  \<open>warmup_seconds + rounds * round_seconds + (rounds - 1) * rest_seconds\<close>, whether or not
  a warmup or rest of zero seconds is left out.
\<close>

theorem total_duration:
  assumes "valid_config c"
  shows "sum_list (map snd (round_intervals c)) =
           warmup_seconds c + rounds c * round_seconds c + (rounds c - 1) * rest_seconds c"
  using assms by (simp add: valid_config_def sum_round_intervals)

theorem total_duration_witness:
  "valid_config \<lparr>rounds = 3, round_seconds = 180, rest_seconds = 0, warmup_seconds = 10,
                  bell = True\<rparr>
   \<and> sum_list (map snd (round_intervals \<lparr>rounds = 3, round_seconds = 180, rest_seconds = 0,
                                          warmup_seconds = 10, bell = True\<rparr>)) = 550"
  using total_duration [of "\<lparr>rounds = 3, round_seconds = 180, rest_seconds = 0,
                             warmup_seconds = 10, bell = True\<rparr>"]
  by (simp add: valid_config_def)

subsection \<open>The time format\<close>

text \<open>
  Claim C6.  For every number of seconds \<open>s \<ge> 0\<close>, \<open>_format_time\<close> renders the minutes
  \<open>s div 60\<close> and the seconds \<open>s mod 60\<close>, each zero-padded to two digits, with a colon
  between them: the two fields read back as these numbers, and the seconds field has
  exactly two digits (the minutes field has more when there are 100 minutes or more, as
  padding never cuts a number).  0, 59, 60 and 125 render as 00:00, 00:59, 01:00, 02:05.
\<close>

theorem format_time_fields:
  assumes "0 \<le> s"
  shows "format_time s = zero_pad2 (nat (s div 60)) @ '':'' @ zero_pad2 (nat (s mod 60))
       \<and> int (read_dec (zero_pad2 (nat (s div 60)))) = s div 60
       \<and> int (read_dec (zero_pad2 (nat (s mod 60)))) = s mod 60
       \<and> length (zero_pad2 (nat (s mod 60))) = 2
       \<and> format_time 0 = ''00:00'' \<and> format_time 59 = ''00:59''
       \<and> format_time 60 = ''01:00'' \<and> format_time 125 = ''02:05''"
proof -
  have m: "0 \<le> s div 60" and r: "0 \<le> s mod 60" "s mod 60 < 60"
    using assms by (simp_all add: pos_imp_zdiv_nonneg_iff)
  have "nat (s mod 60) < 100"
    using r by linarith
  then have "length (zero_pad2 (nat (s mod 60))) = 2"
    by (rule length_zero_pad2)
  with m r show ?thesis
    by (simp add: format_time_nonneg [OF assms] read_dec_zero_pad2 format_time_examples)
qed

theorem format_time_fields_witness:
  "(0::int) \<le> 187 \<and> format_time 187 = ''03:07''
   \<and> read_dec ''03'' = 3 \<and> read_dec ''07'' = 7"
proof -
  have h: "(0::int) \<le> 187"
    by simp
  have z: "zero_pad2 3 = ''03''" "zero_pad2 7 = ''07''"
    by (simp_all add: zero_pad2_def digit_char_def)
  from format_time_fields [OF h] z show ?thesis
    by simp
qed

subsection \<open>The countdown\<close>

text \<open>
  Claim C3.  For every label and every duration \<open>D \<ge> 0\<close>, a countdown that is not
  interrupted returns normally after performing the events \<open>countdown_events label D\<close>:
  the status-line updates among them are exactly \<open>D + 1\<close>, update \<open>k\<close> showing \<open>D - k\<close>,
  that is \<open>D\<close> down to 0; each update is followed by a flush and, only when the time it
  shows is positive, by a sleep of one second, so that there are \<open>D\<close> sleeps.  For
  \<open>D = 0\<close> there is the one update showing 00:00, the newline and the bell, and no sleep.
\<close>

theorem countdown_updates:
  assumes "sigint w = None" and "0 \<le> D"
  shows "countdown label D b w = (Inr (), w\<lparr>out := out w @ countdown_events label D b\<rparr>)
       \<and> filter is_status (countdown_events label D b) =
           map (\<lambda>k. Write (status_line label (D - int k))) [0..<nat D + 1]
       \<and> length (filter is_status (countdown_events label D b)) = nat D + 1
       \<and> filter is_sleep (countdown_events label D b) = replicate (nat D) (Sleep 1)
       \<and> countdown_events label 0 b =
           [Write ([CHR 0x0D] @ label @ '': 00:00   ''), Flush, Write [CHR 0x0A]] @
           bell_events b"
proof -
  have n: "nat (D + 1) = nat D + 1"
    using assms(2) by (simp add: nat_add_distrib)
  have "countdown label D b w = (Inr (), w\<lparr>out := out w @ countdown_events label D b\<rparr>)"
    using assms(1) by (simp add: countdown_is_events perform_all_None)
  moreover have u: "filter is_status (countdown_events label D b) =
      map (\<lambda>k. Write (status_line label (D - int k))) [0..<nat D + 1]"
    using filter_status_countdown [of label D b] n by simp
  moreover have "length (filter is_status (countdown_events label D b)) = nat D + 1"
    by (simp only: u length_map length_upt diff_zero)
  moreover have "filter is_sleep (countdown_events label D b) = replicate (nat D) (Sleep 1)"
    using assms(2) by (rule filter_sleep_countdown)
  ultimately show ?thesis
    using countdown_events_zero [of label b] by blast
qed

theorem countdown_updates_witness:
  "sigint \<lparr>out = [], err = [], sigint = None\<rparr> = None \<and> (0::int) \<le> 1
   \<and> countdown ''Rest'' 1 False \<lparr>out = [], err = [], sigint = None\<rparr> =
       (Inr (), \<lparr>out = [Write (CHR 0x0D # ''Rest: 00:01   ''), Flush, Sleep 1,
                         Write (CHR 0x0D # ''Rest: 00:00   ''), Flush, Write [CHR 0x0A]],
                  err = [], sigint = None\<rparr>)"
proof -
  let ?w = "\<lparr>out = [], err = [], sigint = None\<rparr>"
  have h1: "sigint ?w = None"
    by simp
  have h2: "(0::int) \<le> 1"
    by simp
  have i: "[0..<2] = [0, Suc 0]"
    by (simp add: upt_rec numeral_2_eq_2)
  have f: "format_time 1 = ''00:01''" "format_time 0 = ''00:00''"
    by (simp_all add: format_time_def format_02d_def digit_char_def)
  have e: "countdown_events ''Rest'' 1 False =
      [Write (CHR 0x0D # ''Rest: 00:01   ''), Flush, Sleep 1,
       Write (CHR 0x0D # ''Rest: 00:00   ''), Flush, Write [CHR 0x0A]]"
    by (simp add: countdown_events_def i tick_events_def bell_events_def)
       (simp add: status_line_def f)
  from countdown_updates [OF h1 h2, of "''Rest''" False] e show ?thesis
    by simp
qed

text \<open>
  Claim C8.  A countdown of \<open>D \<ge> 0\<close> seconds that is not interrupted ends with the update
  showing 0, its flush, and the newline that terminates the status line; the bell
  character and a flush follow if and only if the bell is enabled, and no bell occurs
  before.  \<open>parse_args\<close> enables the bell exactly when \<open>--no-bell\<close> is absent, and
  \<open>run_timer\<close> hands that flag to the countdown of every interval: a session that is not
  interrupted consists of the countdowns of its intervals and rings once per interval, or
  never with \<open>--no-bell\<close>; with \<open>--no-bell\<close> no run of \<open>run_timer\<close>, interrupted or not,
  rings at all.
\<close>

theorem bell_after_countdown:
  assumes "sigint w = None" and "0 \<le> D" and "parse_args args w = (Inr c, w')"
  shows "countdown label D b w =
           (Inr (), w\<lparr>out := out w @
              concat (map (\<lambda>k. tick_events label (D - int k)) [0..<nat D]) @
              [Write (status_line label 0), Flush, Write [CHR 0x0A]] @
              (if b then [Write [CHR 0x07], Flush] else [])\<rparr>)
       \<and> filter is_bell (concat (map (\<lambda>k. tick_events label (D - int k)) [0..<nat D]) @
              [Write (status_line label 0), Flush, Write [CHR 0x0A]]) = []
       \<and> bell c = (\<not> arg_no_bell args)
       \<and> uninterrupted c =
           concat (map (\<lambda>x. countdown_events (fst x) (snd x) (bell c)) (round_intervals c))
       \<and> filter is_bell (uninterrupted c) =
           replicate (if arg_no_bell args then 0 else length (round_intervals c))
             (Write [CHR 0x07])
       \<and> (arg_no_bell args \<longrightarrow>
            filter is_bell (out (snd (run_timer c v))) = filter is_bell (out v))"
proof -
  have "countdown label D b w =
      (Inr (), w\<lparr>out := out w @
         concat (map (\<lambda>k. tick_events label (D - int k)) [0..<nat D]) @
         [Write (status_line label 0), Flush, Write [CHR 0x0A]] @
         (if b then [Write [CHR 0x07], Flush] else [])\<rparr>)"
    using assms(1) countdown_events_end [OF assms(2), of label b]
    by (simp add: countdown_is_events perform_all_None bell_events_def)
  moreover have "filter is_bell
      (concat (map (\<lambda>k. tick_events label (D - int k)) [0..<nat D]) @
       [Write (status_line label 0), Flush, Write [CHR 0x0A]]) = []"
    by (simp add: filter_bell_ticks) (simp add: is_bell_def status_line_def)
  moreover have c: "c = config_of args"
    using parse_args_result [OF assms(3)] by simp
  then have b: "bell c = (\<not> arg_no_bell args)"
    by (simp add: config_of_def)
  moreover have "uninterrupted c =
      concat (map (\<lambda>x. countdown_events (fst x) (snd x) (bell c)) (round_intervals c))"
    by (simp add: uninterrupted_events session_events_def)
  moreover have "filter is_bell (uninterrupted c) =
      replicate (if arg_no_bell args then 0 else length (round_intervals c))
        (Write [CHR 0x07])"
    using b by (simp add: uninterrupted_events filter_bell_session)
  moreover have "arg_no_bell args \<longrightarrow>
      filter is_bell (out (snd (run_timer c v))) = filter is_bell (out v)"
    using b run_timer_no_bell [of c v] by simp
  ultimately show ?thesis
    by blast
qed

theorem bell_after_countdown_witness:
  "sigint \<lparr>out = [], err = [], sigint = None\<rparr> = None \<and> (0::int) \<le> 0
   \<and> parse_args \<lparr>arg_rounds = 2, arg_round_seconds = 0, arg_rest_seconds = 0,
                  arg_warmup_seconds = 0, arg_no_bell = True\<rparr>
        \<lparr>out = [], err = [], sigint = None\<rparr> =
       (Inr \<lparr>rounds = 2, round_seconds = 0, rest_seconds = 0, warmup_seconds = 0,
              bell = False\<rparr>, \<lparr>out = [], err = [], sigint = None\<rparr>)
   \<and> arg_no_bell \<lparr>arg_rounds = 2, arg_round_seconds = 0, arg_rest_seconds = 0,
                   arg_warmup_seconds = 0, arg_no_bell = True\<rparr>
   \<and> countdown ''Rest'' 0 True \<lparr>out = [], err = [], sigint = None\<rparr> =
       (Inr (), \<lparr>out = [Write (CHR 0x0D # ''Rest: 00:00   ''), Flush, Write [CHR 0x0A],
                         Write [CHR 0x07], Flush],
                  err = [], sigint = None\<rparr>)
   \<and> filter is_bell (uninterrupted \<lparr>rounds = 2, round_seconds = 0, rest_seconds = 0,
                                     warmup_seconds = 0, bell = False\<rparr>) = []
   \<and> filter is_bell
         (out (snd (run_timer \<lparr>rounds = 2, round_seconds = 0, rest_seconds = 0,
                               warmup_seconds = 0, bell = False\<rparr>
                      \<lparr>out = [], err = [], sigint = Some 4\<rparr>))) = []"
proof -
  let ?w = "\<lparr>out = [], err = [], sigint = None\<rparr>"
  let ?a = "\<lparr>arg_rounds = 2, arg_round_seconds = 0, arg_rest_seconds = 0,
             arg_warmup_seconds = 0, arg_no_bell = True\<rparr>"
  let ?c = "\<lparr>rounds = 2, round_seconds = 0, rest_seconds = 0, warmup_seconds = 0,
             bell = False\<rparr>"
  have h1: "sigint ?w = None"
    by simp
  have h2: "(0::int) \<le> 0"
    by simp
  have h3: "parse_args ?a ?w = (Inr ?c, ?w)"
    using parse_args_valid [of ?a ?w] by (simp add: valid_args_def config_of_def)
  have s: "status_line ''Rest'' 0 = CHR 0x0D # ''Rest: 00:00   ''"
    by (simp add: status_line_def format_time_examples)
  have "countdown ''Rest'' 0 True ?w =
      (Inr (), ?w\<lparr>out := out ?w @
         concat (map (\<lambda>k. tick_events ''Rest'' (0 - int k)) [0..<nat 0]) @
         [Write (status_line ''Rest'' 0), Flush, Write [CHR 0x0A]] @
         (if True then [Write [CHR 0x07], Flush] else [])\<rparr>)"
    and "filter is_bell (uninterrupted ?c) =
      replicate (if arg_no_bell ?a then 0 else length (round_intervals ?c))
        (Write [CHR 0x07])"
    and "arg_no_bell ?a \<longrightarrow>
      filter is_bell (out (snd (run_timer ?c \<lparr>out = [], err = [], sigint = Some 4\<rparr>))) =
      filter is_bell (out \<lparr>out = [], err = [], sigint = Some 4\<rparr>)"
    using bell_after_countdown [OF h1 h2 h3, of "''Rest''" True
        "\<lparr>out = [], err = [], sigint = Some 4\<rparr>"] by blast+
  with h3 s show ?thesis
    by simp
qed

subsection \<open>Interruption\<close>

text \<open>
  Claim C5.  When the user interrupt arrives during a session, after \<open>k\<close> of the events of
  the uninterrupted session, \<open>run_timer\<close> performs none of the later events (no further
  tick of the current interval, no later interval): standard output holds the first \<open>k\<close>
  events and then the write of a newline, \<open>Timer stopped.\<close> and a newline.  \<open>run_timer\<close>
  returns normally, \<open>main\<close> returns 0, and the process leaves with status 0.
\<close>

theorem interrupt_stops_timer:
  assumes "sigint w = Some k" and "k < length (uninterrupted c)"
    and "parse_args args w = (Inr c, w)"
  shows "run_timer c w =
           (Inr (), w\<lparr>out := out w @ take k (uninterrupted c) @
                              [Write (CHR 0x0A # ''Timer stopped.'' @ [CHR 0x0A])],
                      sigint := None\<rparr>)
       \<and> script args w =
           (SystemExit 0, w\<lparr>out := out w @ take k (uninterrupted c) @
                              [Write (CHR 0x0A # ''Timer stopped.'' @ [CHR 0x0A])],
                           sigint := None\<rparr>)
       \<and> exit_status (fst (script args w)) = 0"
proof -
  have r: "run_timer c w =
      (Inr (), w\<lparr>out := out w @ take k (uninterrupted c) @
                         [Write (CHR 0x0A # ''Timer stopped.'' @ [CHR 0x0A])],
                 sigint := None\<rparr>)"
    using run_timer_interrupted [of w k c] assms(1,2)
    by (simp add: uninterrupted_events stopped_message_def)
  from script_valid [OF assms(3) r] r show ?thesis
    by simp
qed

theorem interrupt_stops_timer_witness:
  "sigint \<lparr>out = [], err = [], sigint = Some 4\<rparr> = Some 4
   \<and> 4 < length (uninterrupted \<lparr>rounds = 2, round_seconds = 1, rest_seconds = 0,
                                  warmup_seconds = 0, bell = False\<rparr>)
   \<and> parse_args \<lparr>arg_rounds = 2, arg_round_seconds = 1, arg_rest_seconds = 0,
                  arg_warmup_seconds = 0, arg_no_bell = True\<rparr>
        \<lparr>out = [], err = [], sigint = Some 4\<rparr> =
       (Inr \<lparr>rounds = 2, round_seconds = 1, rest_seconds = 0, warmup_seconds = 0,
              bell = False\<rparr>, \<lparr>out = [], err = [], sigint = Some 4\<rparr>)
   \<and> script \<lparr>arg_rounds = 2, arg_round_seconds = 1, arg_rest_seconds = 0,
              arg_warmup_seconds = 0, arg_no_bell = True\<rparr>
        \<lparr>out = [], err = [], sigint = Some 4\<rparr> =
       (SystemExit 0,
        \<lparr>out = [Write (CHR 0x0D # ''Round 1/2: 00:01   ''), Flush, Sleep 1,
                Write (CHR 0x0D # ''Round 1/2: 00:00   ''),
                Write (CHR 0x0A # ''Timer stopped.'' @ [CHR 0x0A])],
         err = [], sigint = None\<rparr>)"
proof -
  let ?w = "\<lparr>out = [], err = [], sigint = Some 4\<rparr>"
  let ?a = "\<lparr>arg_rounds = 2, arg_round_seconds = 1, arg_rest_seconds = 0,
             arg_warmup_seconds = 0, arg_no_bell = True\<rparr>"
  let ?c = "\<lparr>rounds = 2, round_seconds = 1, rest_seconds = 0, warmup_seconds = 0,
             bell = False\<rparr>"
  have i: "[0..<2] = [0, Suc 0]"
    by (simp add: upt_rec numeral_2_eq_2)
  have f: "format_time 1 = ''00:01''" "format_time 0 = ''00:00''"
    by (simp_all add: format_time_def format_02d_def digit_char_def)
  have r: "round_intervals ?c = [(''Round 1/2'', 1), (''Round 2/2'', 1)]"
    by (simp add: round_intervals_def round_label_def str_int_def digit_char_def upto_rec1)
  have e: "countdown_events label 1 False =
      [Write (CHR 0x0D # label @ '': 00:01   ''), Flush, Sleep 1,
       Write (CHR 0x0D # label @ '': 00:00   ''), Flush, Write [CHR 0x0A]]" for label
    by (simp add: countdown_events_def i tick_events_def bell_events_def)
       (simp add: status_line_def f)
  have u: "uninterrupted ?c =
      [Write (CHR 0x0D # ''Round 1/2: 00:01   ''), Flush, Sleep 1,
       Write (CHR 0x0D # ''Round 1/2: 00:00   ''), Flush, Write [CHR 0x0A],
       Write (CHR 0x0D # ''Round 2/2: 00:01   ''), Flush, Sleep 1,
       Write (CHR 0x0D # ''Round 2/2: 00:00   ''), Flush, Write [CHR 0x0A]]"
    by (simp add: uninterrupted_events session_events_def r e)
  have h1: "sigint ?w = Some 4"
    by simp
  have h2: "4 < length (uninterrupted ?c)"
    by (simp add: u)
  have h3: "parse_args ?a ?w = (Inr ?c, ?w)"
    using parse_args_valid [of ?a ?w] by (simp add: valid_args_def config_of_def)
  from interrupt_stops_timer [OF h1 h2 h3] h1 h2 h3 show ?thesis
    by (simp add: u)
qed

subsection \<open>Argument validation\<close>

text \<open>
  Claim C4.  \<open>parse_args\<close> accepts exactly the namespaces with \<open>rounds \<ge> 1\<close> and no
  negative duration, and returns their values as the configuration, with the bell on
  unless \<open>--no-bell\<close> was given; such a configuration is valid.  Every other namespace
  (\<open>rounds < 1\<close>, or some duration negative) is rejected through \<open>parser.error\<close>: the script
  ends with \<open>SystemExit(2)\<close>, a non-zero status, with the message of the first failed
  check on standard error and nothing performed on standard output.
\<close>

theorem argument_validation:
  "(if valid_args args
    then parse_args args w = (Inr (config_of args), w) \<and> valid_config (config_of args)
    else script args w = (SystemExit 2, w\<lparr>err := err w @ [rejection_message args]\<rparr>)
       \<and> rejection_message args \<noteq> []
       \<and> exit_status (fst (script args w)) \<noteq> 0
       \<and> out (snd (script args w)) = out w)"
proof (cases "valid_args args")
  case True
  then have "valid_config (config_of args)"
    by (simp add: valid_args_def valid_config_def config_of_def)
  with True show ?thesis
    by (simp add: parse_args_valid)
next
  case False
  have "script args w = (SystemExit 2, w\<lparr>err := err w @ [rejection_message args]\<rparr>)"
    using script_invalid [OF parse_args_rejects [OF False]] .
  moreover have "rejection_message args \<noteq> []"
    by (simp add: rejection_message_def)
  ultimately show ?thesis
    using False by simp
qed

theorem argument_validation_witness:
  "\<not> valid_args \<lparr>arg_rounds = 0, arg_round_seconds = 180, arg_rest_seconds = 60,
                    arg_warmup_seconds = 10, arg_no_bell = False\<rparr>
   \<and> script \<lparr>arg_rounds = 0, arg_round_seconds = 180, arg_rest_seconds = 60,
              arg_warmup_seconds = 10, arg_no_bell = False\<rparr>
        \<lparr>out = [], err = [], sigint = None\<rparr> =
       (SystemExit 2, \<lparr>out = [], err = [''--rounds must be at least 1''], sigint = None\<rparr>)
   \<and> \<not> valid_args \<lparr>arg_rounds = 3, arg_round_seconds = - 1, arg_rest_seconds = 60,
                      arg_warmup_seconds = 10, arg_no_bell = False\<rparr>
   \<and> script \<lparr>arg_rounds = 3, arg_round_seconds = - 1, arg_rest_seconds = 60,
              arg_warmup_seconds = 10, arg_no_bell = False\<rparr>
        \<lparr>out = [], err = [], sigint = None\<rparr> =
       (SystemExit 2,
        \<lparr>out = [], err = [''--round-seconds cannot be negative''], sigint = None\<rparr>)
   \<and> valid_args \<lparr>arg_rounds = 1, arg_round_seconds = 0, arg_rest_seconds = 0,
                  arg_warmup_seconds = 0, arg_no_bell = False\<rparr>
   \<and> parse_args \<lparr>arg_rounds = 1, arg_round_seconds = 0, arg_rest_seconds = 0,
                  arg_warmup_seconds = 0, arg_no_bell = False\<rparr>
        \<lparr>out = [], err = [], sigint = None\<rparr> =
       (Inr \<lparr>rounds = 1, round_seconds = 0, rest_seconds = 0, warmup_seconds = 0,
              bell = True\<rparr>, \<lparr>out = [], err = [], sigint = None\<rparr>)"
proof -
  let ?w = "\<lparr>out = [], err = [], sigint = None\<rparr>"
  let ?a0 = "\<lparr>arg_rounds = 0, arg_round_seconds = 180, arg_rest_seconds = 60,
              arg_warmup_seconds = 10, arg_no_bell = False\<rparr>"
  let ?a1 = "\<lparr>arg_rounds = 3, arg_round_seconds = - 1, arg_rest_seconds = 60,
              arg_warmup_seconds = 10, arg_no_bell = False\<rparr>"
  let ?a2 = "\<lparr>arg_rounds = 1, arg_round_seconds = 0, arg_rest_seconds = 0,
              arg_warmup_seconds = 0, arg_no_bell = False\<rparr>"
  have v: "\<not> valid_args ?a0" "\<not> valid_args ?a1" "valid_args ?a2"
    by (simp_all add: valid_args_def)
  have m: "rejection_message ?a0 = ''--rounds must be at least 1''"
    "rejection_message ?a1 = ''--round-seconds cannot be negative''"
    by (simp_all add: rejection_message_def)
  from argument_validation [of ?a0 ?w] argument_validation [of ?a1 ?w]
    argument_validation [of ?a2 ?w] v m
  show ?thesis
    by (simp add: config_of_def)
qed

subsection \<open>Repeated invocation\<close>

text \<open>
  Claim C9.  Calling \<open>_round_intervals\<close> twice on the same configuration gives two
  generator objects that yield identical sequences, whether the second call is made
  after the first generator has been drained or before, the two objects being distinct
  and sharing no state; the sequence is \<open>round_intervals\<close> of the configuration, a function
  of its four integers alone (the bell flag does not enter).
\<close>

theorem round_intervals_idempotent:
  "(let (g1, h1) = call_round_intervals c h0;
        (xs, h2) = list_gen g1 h1;
        (g2, h3) = call_round_intervals c h2;
        (ys, h4) = list_gen g2 h3
    in xs = ys \<and> xs = round_intervals c \<and> g1 \<noteq> g2)
   \<and> (let (g1, h1) = call_round_intervals c h0;
        (g2, h2) = call_round_intervals c h1;
        (xs, h3) = list_gen g1 h2;
        (ys, h4) = list_gen g2 h3
    in xs = ys \<and> xs = round_intervals c \<and> g1 \<noteq> g2)
   \<and> round_intervals (c\<lparr>bell := b\<rparr>) = round_intervals c"
proof -
  have "round_loop (c\<lparr>bell := b\<rparr>) xs = round_loop c xs" for xs
    by (induction xs) simp_all
  then have "round_intervals (c\<lparr>bell := b\<rparr>) = round_intervals c"
    by (simp add: round_intervals_def)
  then show ?thesis
    by (simp add: call_round_intervals_def list_gen_pending nth_append)
qed

end
